theory Spec2Isabelle
  imports Main
begin

section \<open>The sudoku solver of \<^verbatim>\<open>src/sudoku.py\<close>\<close>

text \<open>
  The program is a Python 2 script. A puzzle is a list of rows, each row a list of
  Python integers; the cell indices come from \<^verbatim>\<open>range(9)\<close> and are natural numbers.
  Reading a list out of range raises \<^verbatim>\<open>IndexError\<close>, converting a character that
  is no digit raises \<^verbatim>\<open>ValueError\<close>, and reading a line at the end of the input
  raises \<^verbatim>\<open>EOFError\<close>; nothing in the script catches any of them.
\<close>

datatype error = IndexError | ValueError | EOFError

type_synonym grid = "int list list"

text \<open>\<^verbatim>\<open>xs[i]\<close> for an index that is not negative.\<close>

definition index :: "'a list \<Rightarrow> nat \<Rightarrow> error + 'a" where
  "index xs i = (if i < length xs then Inr (xs ! i) else Inl IndexError)"

text \<open>\<^verbatim>\<open>xs[a:b]\<close> for bounds that are not negative; a slice never raises.\<close>

definition slice :: "nat \<Rightarrow> nat \<Rightarrow> 'a list \<Rightarrow> 'a list" where
  "slice a b xs = drop a (take b xs)"

subsection \<open>Missing numbers of a row, a column and a box\<close>

text \<open>
  The three checking functions end in the same loop,
  \<^verbatim>\<open>for i in range(9): if (i+1) not in xs: missing.append(i+1)\<close>.
\<close>

definition missing_in :: "int list \<Rightarrow> int list" where
  "missing_in xs = filter (\<lambda>v. v \<notin> set xs) (map (\<lambda>i. int i + 1) [0..<9])"

definition checkrow :: "nat \<Rightarrow> grid \<Rightarrow> error + int list" where
  "checkrow r puzzle =
     (case index puzzle r of
        Inl e \<Rightarrow> Inl e
      | Inr row \<Rightarrow> Inr (missing_in row))"

text \<open>The comprehension \<^verbatim>\<open>[row[c] for row in puzzle]\<close> runs over every row of the puzzle.\<close>

fun column :: "nat \<Rightarrow> grid \<Rightarrow> error + int list" where
  "column c [] = Inr []"
| "column c (row # rows) =
     (case index row c of
        Inl e \<Rightarrow> Inl e
      | Inr v \<Rightarrow> (case column c rows of
                   Inl e \<Rightarrow> Inl e
                 | Inr vs \<Rightarrow> Inr (v # vs)))"

definition checkcol :: "nat \<Rightarrow> grid \<Rightarrow> error + int list" where
  "checkcol c puzzle =
     (case column c puzzle of
        Inl e \<Rightarrow> Inl e
      | Inr col \<Rightarrow> Inr (missing_in col))"

text \<open>
  The first loop of \<^verbatim>\<open>checkbox\<close>, over the list \<open>js\<close> of the values of \<^verbatim>\<open>j\<close>
  still to come: \<^verbatim>\<open>box.extend(puzzle[((n/3)*3) + j][(3*(n%3)):((n%3)+1)*3])\<close>.
\<close>

fun box_extend :: "nat \<Rightarrow> grid \<Rightarrow> nat list \<Rightarrow> int list \<Rightarrow> error + int list" where
  "box_extend n puzzle [] box = Inr box"
| "box_extend n puzzle (j # js) box =
     (case index puzzle (((n div 3) * 3) + j) of
        Inl e \<Rightarrow> Inl e
      | Inr row \<Rightarrow>
          box_extend n puzzle js (box @ slice (3 * (n mod 3)) (((n mod 3) + 1) * 3) row))"

definition checkbox :: "nat \<Rightarrow> grid \<Rightarrow> error + int list" where
  "checkbox n puzzle =
     (case box_extend n puzzle [0..<3] [] of
        Inl e \<Rightarrow> Inl e
      | Inr box \<Rightarrow> Inr (missing_in box))"

subsection \<open>One sweep: \<^verbatim>\<open>sud\<close>\<close>

text \<open>
  The first loop of \<^verbatim>\<open>sud\<close> appends to \<^verbatim>\<open>missingrow\<close>, \<^verbatim>\<open>missingcol\<close> and
  \<^verbatim>\<open>missingbox\<close>, in this order, for each \<^verbatim>\<open>i\<close>.
\<close>

fun missing_loop ::
  "grid \<Rightarrow> nat list \<Rightarrow> int list list \<times> int list list \<times> int list list \<Rightarrow>
     error + int list list \<times> int list list \<times> int list list" where
  "missing_loop puzzle [] m = Inr m"
| "missing_loop puzzle (i # is) (missingrow, missingcol, missingbox) =
     (case checkrow i puzzle of
        Inl e \<Rightarrow> Inl e
      | Inr mr \<Rightarrow>
     (case checkcol i puzzle of
        Inl e \<Rightarrow> Inl e
      | Inr mc \<Rightarrow>
     (case checkbox i puzzle of
        Inl e \<Rightarrow> Inl e
      | Inr mb \<Rightarrow>
          missing_loop puzzle is (missingrow @ [mr], missingcol @ [mc], missingbox @ [mb]))))"

text \<open>
  The body of the second loop for the cell \<open>(i, j)\<close>. The state is the flag
  \<^verbatim>\<open>finished\<close> and the list \<^verbatim>\<open>solution\<close>; the puzzle and the three lists of missing
  numbers are only read. The Python builds \<^verbatim>\<open>tmp\<close> from a set, whose order of
  iteration is not fixed; the code reads only its length and, when the length is 1, its
  sole element, so any duplicate-free enumeration of the intersection is the same to it.
\<close>

definition cell ::
  "grid \<Rightarrow> int list list \<Rightarrow> int list list \<Rightarrow> int list list \<Rightarrow> nat \<Rightarrow> nat \<Rightarrow>
     bool \<times> int list \<Rightarrow> error + bool \<times> int list" where
  "cell puzzle missingrow missingcol missingbox i j st =
     (case index puzzle i of
        Inl e \<Rightarrow> Inl e
      | Inr row \<Rightarrow>
     (case index row j of
        Inl e \<Rightarrow> Inl e
      | Inr v \<Rightarrow>
          if v = 0 then
            (case index missingrow i of
               Inl e \<Rightarrow> Inl e
             | Inr mr \<Rightarrow>
            (case index missingcol j of
               Inl e \<Rightarrow> Inl e
             | Inr mc \<Rightarrow>
            (case index missingbox ((i div 3) * 3 + (j div 3)) of
               Inl e \<Rightarrow> Inl e
             | Inr mb \<Rightarrow>
                 (let tmp = filter (\<lambda>x. x \<in> set mc \<and> x \<in> set mb) (remdups mr)
                  in if length tmp = 1 then Inr (False, snd st @ [tmp ! 0])
                     else Inr (False, snd st @ [0])))))
          else Inr (fst st, snd st @ [v])))"

fun cells ::
  "grid \<Rightarrow> int list list \<Rightarrow> int list list \<Rightarrow> int list list \<Rightarrow> (nat \<times> nat) list \<Rightarrow>
     bool \<times> int list \<Rightarrow> error + bool \<times> int list" where
  "cells puzzle missingrow missingcol missingbox [] st = Inr st"
| "cells puzzle missingrow missingcol missingbox ((i, j) # ijs) st =
     (case cell puzzle missingrow missingcol missingbox i j st of
        Inl e \<Rightarrow> Inl e
      | Inr st' \<Rightarrow> cells puzzle missingrow missingcol missingbox ijs st')"

text \<open>The cells in the order of the nested loops: row by row, each row left to right.\<close>

definition cell_order :: "(nat \<times> nat) list" where
  "cell_order = concat (map (\<lambda>i. map (\<lambda>j. (i, j)) [0..<9]) [0..<9])"

text \<open>
  \<^verbatim>\<open>sud\<close> returns the dictionary \<^verbatim>\<open>{finished: solution1}\<close>, which has one key: it
  is modelled as the pair of the key and the value.
\<close>

definition sud :: "grid \<Rightarrow> error + bool \<times> grid" where
  "sud puzzle =
     (case missing_loop puzzle [0..<9] ([], [], []) of
        Inl e \<Rightarrow> Inl e
      | Inr (missingrow, missingcol, missingbox) \<Rightarrow>
     (case cells puzzle missingrow missingcol missingbox cell_order (True, []) of
        Inl e \<Rightarrow> Inl e
      | Inr (finished, solution) \<Rightarrow>
          Inr (finished, map (\<lambda>i. slice (9 * i) (9 * i + 9) solution) [0..<9])))"

subsection \<open>The driver: \<^verbatim>\<open>sudoku\<close>\<close>

text \<open>
  \<^verbatim>\<open>while (False in done.keys()): done = sud(done[False])\<close>. The loop has no other
  exit, so it is a partial function: \<open>None\<close> is the run that never leaves the loop. An
  exception raised by \<^verbatim>\<open>sud\<close> ends the script.
\<close>

partial_function (option) solve_loop :: "error + bool \<times> grid \<Rightarrow> (error + grid) option" where
  "solve_loop d =
     (case d of
        Inl e \<Rightarrow> Some (Inl e)
      | Inr kv \<Rightarrow> if \<not> fst kv then solve_loop (sud (snd kv)) else Some (Inr (snd kv)))"

text \<open>\<^verbatim>\<open>int(ch)\<close> for a string of one character.\<close>

definition int_of_char :: "char \<Rightarrow> error + int" where
  "int_of_char ch =
     (if ch \<in> set ''0123456789'' then Inr (int (of_char ch) - 48) else Inl ValueError)"

text \<open>\<^verbatim>\<open>map(int, str(inp))\<close>\<close>

fun map_int :: "string \<Rightarrow> error + int list" where
  "map_int [] = Inr []"
| "map_int (ch # chs) =
     (case int_of_char ch of
        Inl e \<Rightarrow> Inl e
      | Inr v \<Rightarrow> (case map_int chs of
                   Inl e \<Rightarrow> Inl e
                 | Inr vs \<Rightarrow> Inr (v # vs)))"

text \<open>
  The reading loop, \<open>k\<close> lines still to read; the standard input is the list of its
  lines, and \<^verbatim>\<open>raw_input()\<close> takes the first one.
\<close>

fun read_rows :: "nat \<Rightarrow> string list \<Rightarrow> grid \<Rightarrow> error + grid" where
  "read_rows 0 stdin puzzle = Inr puzzle"
| "read_rows (Suc k) [] puzzle = Inl EOFError"
| "read_rows (Suc k) (inp # stdin) puzzle =
     (case map_int inp of
        Inl e \<Rightarrow> Inl e
      | Inr row \<Rightarrow> read_rows k stdin (puzzle @ [row]))"

text \<open>The script's result is the grid it prints, \<^verbatim>\<open>done[True]\<close>.\<close>

definition sudoku :: "string list \<Rightarrow> (error + grid) option" where
  "sudoku stdin =
     (case read_rows 9 stdin [] of
        Inl e \<Rightarrow> Some (Inl e)
      | Inr puzzle \<Rightarrow> solve_loop (sud puzzle))"

section \<open>Notions used in the statements\<close>

text \<open>The grids that a sweep accepts: at least nine rows, and no row shorter than nine.\<close>

definition shape_ok :: "grid \<Rightarrow> bool" where
  "shape_ok g = (9 \<le> length g \<and> (\<forall>row\<in>set g. 9 \<le> length row))"

definition nine_by_nine :: "grid \<Rightarrow> bool" where
  "nine_by_nine g = (length g = 9 \<and> (\<forall>row\<in>set g. length row = 9))"

text \<open>A grid is complete when no cell equals 0.\<close>

definition is_complete :: "grid \<Rightarrow> bool" where
  "is_complete g = (0 \<notin> set (concat g))"

definition empty_count :: "grid \<Rightarrow> nat" where
  "empty_count g = length (filter (\<lambda>v. v = 0) (concat g))"

text \<open>
  The candidates of the cell \<open>(i, j)\<close> as a sweep computes them: the list \<^verbatim>\<open>tmp\<close> of
  \<^verbatim>\<open>sud\<close>, from the missing numbers of row \<open>i\<close>, of column \<open>j\<close> and of the box
  \<^verbatim>\<open>(i/3)*3 + (j/3)\<close>.
\<close>

definition candidates :: "grid \<Rightarrow> nat \<Rightarrow> nat \<Rightarrow> error + int list" where
  "candidates puzzle i j =
     (case checkrow i puzzle of
        Inl e \<Rightarrow> Inl e
      | Inr mr \<Rightarrow>
     (case checkcol j puzzle of
        Inl e \<Rightarrow> Inl e
      | Inr mc \<Rightarrow>
     (case checkbox ((i div 3) * 3 + (j div 3)) puzzle of
        Inl e \<Rightarrow> Inl e
      | Inr mb \<Rightarrow> Inr (filter (\<lambda>x. x \<in> set mc \<and> x \<in> set mb) (remdups mr)))))"

text \<open>
  The cells of box \<open>b\<close> by the formula of the specification:
  \<open>(3*(b/3)+dr, 3*(b%3)+dc)\<close> for \<open>dr\<close> and \<open>dc\<close> from 0 to 2.
\<close>

definition spec_box_cells :: "nat \<Rightarrow> (nat \<times> nat) list" where
  "spec_box_cells b =
     concat (map (\<lambda>dr. map (\<lambda>dc. (3 * (b div 3) + dr, 3 * (b mod 3) + dc)) [0..<3]) [0..<3])"

text \<open>
  One turn of the driver's loop on the value of \<^verbatim>\<open>done\<close>: a result keyed
  \<^verbatim>\<open>False\<close> is swept again, anything else is left as it is. \<open>sweeps n g\<close> is the value of
  \<^verbatim>\<open>done\<close> after the first call of \<^verbatim>\<open>sud\<close> and at most \<open>n\<close> turns of the loop.
\<close>

definition loop_step :: "error + bool \<times> grid \<Rightarrow> error + bool \<times> grid" where
  "loop_step d =
     (case d of
        Inl e \<Rightarrow> Inl e
      | Inr kv \<Rightarrow> if \<not> fst kv then sud (snd kv) else Inr kv)"

definition sweeps :: "nat \<Rightarrow> grid \<Rightarrow> error + bool \<times> grid" where
  "sweeps n g = (loop_step ^^ n) (sud g)"

definition halted :: "error + bool \<times> grid \<Rightarrow> bool" where
  "halted d = (case d of Inl e \<Rightarrow> True | Inr kv \<Rightarrow> fst kv)"

text \<open>Sweeping again and again, whatever the key of the result: \<open>n + 1\<close> calls of \<^verbatim>\<open>sud\<close>.\<close>

fun resweep :: "nat \<Rightarrow> grid \<Rightarrow> error + bool \<times> grid" where
  "resweep 0 g = sud g"
| "resweep (Suc n) g =
     (case resweep n g of
        Inl e \<Rightarrow> Inl e
      | Inr kv \<Rightarrow> sud (snd kv))"

text \<open>
  The validity of an input grid in the words of the specification: 81 values in nine rows
  of nine, each from 0 to 9, and the nonzero values of every row, column and box pairwise
  distinct. A solution of a grid is a valid complete grid that keeps its clues.
\<close>

definition region_distinct :: "int list \<Rightarrow> bool" where
  "region_distinct xs = distinct (filter (\<lambda>v. v \<noteq> 0) xs)"

definition spec_is_valid :: "grid \<Rightarrow> bool" where
  "spec_is_valid g =
     (nine_by_nine g \<and>
      list_all (\<lambda>v. 0 \<le> v \<and> v \<le> 9) (concat g) \<and>
      list_all (\<lambda>i. region_distinct (g ! i)) [0..<9] \<and>
      list_all (\<lambda>j. region_distinct (map (\<lambda>row. row ! j) g)) [0..<9] \<and>
      list_all (\<lambda>b. region_distinct (map (\<lambda>(i, j). g ! i ! j) (spec_box_cells b))) [0..<9])"

definition spec_solution_of :: "grid \<Rightarrow> grid \<Rightarrow> bool" where
  "spec_solution_of s g =
     (spec_is_valid s \<and> is_complete s \<and>
      list_all (\<lambda>(i, j). g ! i ! j = 0 \<or> s ! i ! j = g ! i ! j) cell_order)"

subsection \<open>Concrete grids\<close>

text \<open>The example grid of the script and of the specification, and its first sweep.\<close>

definition example_puzzle :: grid where
  "example_puzzle =
     [[0,2,0,9,4,5,0,7,8],
      [0,0,9,0,6,2,0,0,0],
      [0,7,0,1,0,0,2,0,5],
      [0,1,0,8,0,9,4,0,0],
      [0,0,0,0,5,0,0,0,0],
      [0,0,5,4,0,1,0,6,0],
      [1,0,7,0,0,8,0,2,0],
      [0,0,0,3,2,0,1,0,0],
      [8,6,0,5,1,4,0,3,0]]"

definition example_sweep1 :: grid where
  "example_sweep1 =
     [[0,2,0,9,4,5,0,7,8],
      [0,0,9,7,6,2,3,0,0],
      [0,7,0,1,0,3,2,0,5],
      [0,1,0,8,0,9,4,5,0],
      [0,0,0,0,5,0,0,0,0],
      [0,0,5,4,0,1,0,6,0],
      [1,0,7,6,9,8,0,2,0],
      [0,0,4,3,2,0,1,0,0],
      [8,6,2,5,1,4,0,3,0]]"

text \<open>The solved example, the empty grid, and a grid with a single clue.\<close>

definition example_solved :: grid where
  "example_solved =
     [[3,2,1,9,4,5,6,7,8],
      [5,8,9,7,6,2,3,4,1],
      [4,7,6,1,8,3,2,9,5],
      [6,1,3,8,7,9,4,5,2],
      [7,4,8,2,5,6,9,1,3],
      [2,9,5,4,3,1,8,6,7],
      [1,3,7,6,9,8,5,2,4],
      [9,5,4,3,2,7,1,8,6],
      [8,6,2,5,1,4,7,3,9]]"

definition zero_grid :: grid where
  "zero_grid = replicate 9 (replicate 9 0)"

definition one_clue_grid :: grid where
  "one_clue_grid = [1,0,0,0,0,0,0,0,0] # replicate 8 (replicate 9 0)"


text \<open>
  A grid whose cell \<open>(0, 0)\<close> has no candidate (its row lacks only 9, which is in its
  column), and its sweep.
\<close>

definition dead_cell_grid :: grid where
  "dead_cell_grid =
     [[0,1,2,3,4,5,6,7,8],
      [0,0,0,0,0,0,0,0,0],
      [0,0,0,0,0,0,0,0,0],
      [9,0,0,0,0,0,0,0,0],
      [0,0,0,0,0,0,0,0,0],
      [0,0,0,0,0,0,0,0,0],
      [0,0,0,0,0,0,0,0,0],
      [0,0,0,0,0,0,0,0,0],
      [1,2,3,4,5,6,7,8,0]]"

definition dead_cell_sweep :: grid where
  "dead_cell_sweep =
     [[0,1,2,3,4,5,6,7,8],
      [0,0,0,0,0,0,0,0,0],
      [0,0,0,0,0,0,0,0,0],
      [9,0,0,0,0,0,0,0,0],
      [0,0,0,0,0,0,0,0,0],
      [0,0,0,0,0,0,0,0,0],
      [0,0,0,0,0,0,0,0,0],
      [0,0,0,0,0,0,0,0,0],
      [1,2,3,4,5,6,7,8,9]]"

text \<open>
  The example input with the first digit changed to 2, a second 2 in the first row and in
  the first box; the grid read from it, and the grid the script prints for it.
\<close>

definition dup_input :: "string list" where
  "dup_input = [''220945078'', ''009062000'', ''070100205'', ''010809400'', ''000050000'',
                ''005401060'', ''107008020'', ''000320100'', ''860514030'']"

definition dup_grid :: grid where
  "dup_grid =
     [[2,2,0,9,4,5,0,7,8],
      [0,0,9,0,6,2,0,0,0],
      [0,7,0,1,0,0,2,0,5],
      [0,1,0,8,0,9,4,0,0],
      [0,0,0,0,5,0,0,0,0],
      [0,0,5,4,0,1,0,6,0],
      [1,0,7,0,0,8,0,2,0],
      [0,0,0,3,2,0,1,0,0],
      [8,6,0,5,1,4,0,3,0]]"

definition dup_result :: grid where
  "dup_result =
     [[2,2,1,9,4,5,6,7,8],
      [5,8,9,7,6,2,3,4,1],
      [4,7,6,1,8,3,2,9,5],
      [6,1,3,8,7,9,4,5,2],
      [7,4,8,2,5,6,9,1,3],
      [7,9,5,4,3,1,8,6,7],
      [1,3,7,6,9,8,5,2,4],
      [9,5,4,3,2,7,1,8,6],
      [8,6,2,5,1,4,7,3,9]]"

text \<open>An input of nine lines of nine digits 1.\<close>

definition ones_input :: "string list" where
  "ones_input = replicate 9 ''111111111''"

definition ones_grid :: grid where
  "ones_grid = replicate 9 (replicate 9 1)"

text \<open>
  An input whose single line has spaces, and an input of eight lines.
\<close>

definition space_input :: "string list" where
  "space_input = [''1 2 3 4 5'']"

definition short_input :: "string list" where
  "short_input = replicate 8 ''111111111''"

text \<open>
  An input whose last line has ten digits, the grid read from it, and its first two sweeps.
\<close>

definition long_row_input :: "string list" where
  "long_row_input = replicate 8 ''000000000'' @ [''1234567809'']"

definition long_row_grid :: grid where
  "long_row_grid = replicate 8 (replicate 9 0) @ [[1,2,3,4,5,6,7,8,0,9]]"

definition long_row_sweep1 :: grid where
  "long_row_sweep1 = replicate 8 (replicate 9 0) @ [[1,2,3,4,5,6,7,8,0]]"

definition long_row_sweep2 :: grid where
  "long_row_sweep2 = replicate 8 (replicate 9 0) @ [[1,2,3,4,5,6,7,8,9]]"

subsection \<open>Closed forms used in the proofs\<close>

definition is_digit :: "char \<Rightarrow> bool" where
  "is_digit ch = (ch \<in> set ''0123456789'')"

definition row_missing :: "grid \<Rightarrow> nat \<Rightarrow> int list" where
  "row_missing g i = missing_in (g ! i)"

definition col_missing :: "grid \<Rightarrow> nat \<Rightarrow> int list" where
  "col_missing g j = missing_in (map (\<lambda>row. row ! j) g)"

definition box_missing :: "grid \<Rightarrow> nat \<Rightarrow> int list" where
  "box_missing g n =
     missing_in (concat (map (\<lambda>j. slice (3 * (n mod 3)) ((n mod 3 + 1) * 3) (g ! ((n div 3) * 3 + j))) [0..<3]))"

definition tmp_of :: "grid \<Rightarrow> nat \<Rightarrow> nat \<Rightarrow> int list" where
  "tmp_of g i j =
     filter (\<lambda>x. x \<in> set (col_missing g j) \<and> x \<in> set (box_missing g ((i div 3) * 3 + j div 3)))
       (remdups (row_missing g i))"

definition fill :: "grid \<Rightarrow> nat \<Rightarrow> nat \<Rightarrow> int" where
  "fill g i j =
     (if g ! i ! j = 0 then (if length (tmp_of g i j) = 1 then tmp_of g i j ! 0 else 0)
      else g ! i ! j)"

definition checks_ok :: "grid \<Rightarrow> nat \<Rightarrow> bool" where
  "checks_ok g i =
     (i < length g \<and> (\<forall>row\<in>set g. i < length row) \<and> (\<forall>j\<in>set [0..<3]. (i div 3) * 3 + j < length g))"

section \<open>What a sweep computes\<close>

lemma box_index_less: "i < 9 \<Longrightarrow> j < 3 \<Longrightarrow> (i div 3) * 3 + j < (9::nat)"
  by arith

lemma column_eq:
  "column c g = (if \<forall>row\<in>set g. c < length row then Inr (map (\<lambda>row. row ! c) g) else Inl IndexError)"
  by (induction g) (auto simp: index_def)

lemma box_extend_eq:
  "box_extend n g js box =
     (if \<forall>j\<in>set js. (n div 3) * 3 + j < length g
      then Inr (box @ concat (map (\<lambda>j. slice (3 * (n mod 3)) ((n mod 3 + 1) * 3) (g ! ((n div 3) * 3 + j))) js))
      else Inl IndexError)"
  by (induction js arbitrary: box) (auto simp: index_def)

lemma checkrow_eq:
  "checkrow r g = (if r < length g then Inr (row_missing g r) else Inl IndexError)"
  by (simp add: checkrow_def index_def row_missing_def)

lemma checkcol_eq:
  "checkcol c g = (if \<forall>row\<in>set g. c < length row then Inr (col_missing g c) else Inl IndexError)"
  by (simp add: checkcol_def column_eq col_missing_def)

lemma checkbox_eq:
  "checkbox n g =
     (if \<forall>j\<in>set [0..<3]. (n div 3) * 3 + j < length g then Inr (box_missing g n) else Inl IndexError)"
  unfolding checkbox_def box_extend_eq box_missing_def by simp

lemma missing_loop_eq:
  "missing_loop g is (a, b, c) =
     (if \<forall>i\<in>set is. checks_ok g i
      then Inr (a @ map (row_missing g) is, b @ map (col_missing g) is, c @ map (box_missing g) is)
      else Inl IndexError)"
proof (induction "is" arbitrary: a b c)
  case Nil
  then show ?case by simp
next
  case (Cons i "is")
  show ?case
  proof (cases "checks_ok g i")
    case True
    then have "checkrow i g = Inr (row_missing g i)" "checkcol i g = Inr (col_missing g i)"
      "checkbox i g = Inr (box_missing g i)"
      by (simp_all add: checks_ok_def checkrow_eq checkcol_eq checkbox_eq)
    with True Cons.IH show ?thesis by simp
  next
    case False
    then have "checkrow i g = Inl IndexError \<or> checkcol i g = Inl IndexError \<or> checkbox i g = Inl IndexError"
      unfolding checks_ok_def checkrow_eq checkcol_eq checkbox_eq by auto
    then show ?thesis using False
      by (auto simp: checkrow_eq checkcol_eq checkbox_eq split: sum.splits if_splits)
  qed
qed

lemma shape_ok_checks: "shape_ok g \<longleftrightarrow> (\<forall>i\<in>set [0..<9]. checks_ok g i)"
proof
  assume s: "shape_ok g"
  show "\<forall>i\<in>set [0..<9]. checks_ok g i"
  proof
    fix i assume "i \<in> set [0..<9]"
    then have i: "i < 9" by simp
    then have "\<forall>j\<in>set [0..<3]. (i div 3) * 3 + j < 9" by (simp add: box_index_less)
    with s i show "checks_ok g i" unfolding checks_ok_def shape_ok_def by fastforce
  qed
next
  assume "\<forall>i\<in>set [0..<9]. checks_ok g i"
  then have "checks_ok g 8" by simp
  then show "shape_ok g" unfolding checks_ok_def shape_ok_def by fastforce
qed

lemma shape_ok_nth:
  assumes "shape_ok g" "i < 9"
  shows "i < length g" and "9 \<le> length (g ! i)"
proof -
  from assms show ig: "i < length g" unfolding shape_ok_def by simp
  then have "g ! i \<in> set g" by simp
  with assms(1) show "9 \<le> length (g ! i)" unfolding shape_ok_def by blast
qed

lemma cell_eq:
  assumes "i < length g" "j < length (g ! i)" "i < length mrs" "j < length mcs"
    "(i div 3) * 3 + j div 3 < length mbs"
    "mrs ! i = row_missing g i" "mcs ! j = col_missing g j"
    "mbs ! ((i div 3) * 3 + j div 3) = box_missing g ((i div 3) * 3 + j div 3)"
  shows "cell g mrs mcs mbs i j (f, sol) = Inr (f \<and> g ! i ! j \<noteq> 0, sol @ [fill g i j])"
  using assms by (simp add: cell_def index_def fill_def tmp_of_def Let_def)

lemma cells_eq:
  assumes "shape_ok g"
    "mrs = map (row_missing g) [0..<9]" "mcs = map (col_missing g) [0..<9]"
    "mbs = map (box_missing g) [0..<9]"
    "\<forall>(i, j)\<in>set ijs. i < 9 \<and> j < 9"
  shows "cells g mrs mcs mbs ijs (f, sol) =
           Inr (f \<and> (\<forall>(i, j)\<in>set ijs. g ! i ! j \<noteq> 0), sol @ map (\<lambda>(i, j). fill g i j) ijs)"
  using assms(5)
proof (induction ijs arbitrary: f sol)
  case Nil
  then show ?case by simp
next
  case (Cons ij ijs)
  obtain i j where ij: "ij = (i, j)" by (cases ij)
  with Cons.prems have lt: "i < 9" "j < 9" by auto
  then have b: "(i div 3) * 3 + j div 3 < 9" by (simp add: box_index_less)
  from shape_ok_nth[OF assms(1) lt(1)] lt have "i < length g" "j < length (g ! i)" by simp_all
  moreover from lt b assms(2-4) have "i < length mrs" "j < length mcs"
    "(i div 3) * 3 + j div 3 < length mbs"
    "mrs ! i = row_missing g i" "mcs ! j = col_missing g j"
    "mbs ! ((i div 3) * 3 + j div 3) = box_missing g ((i div 3) * 3 + j div 3)"
    by (simp_all del: upt_Suc)
  ultimately have c: "cell g mrs mcs mbs i j (f, sol) = Inr (f \<and> g ! i ! j \<noteq> 0, sol @ [fill g i j])"
    by (rule cell_eq)
  from Cons.prems have "\<forall>(i, j)\<in>set ijs. i < 9 \<and> j < 9" by simp
  from Cons.IH[OF this] c ij show ?case by auto
qed

lemma slice_concat:
  assumes "\<forall>xs\<in>set xss. length xs = k" "i < length xss"
  shows "slice (k * i) (k * i + k) (concat xss) = xss ! i"
  using assms
proof (induction xss arbitrary: i)
  case Nil
  then show ?case by simp
next
  case (Cons xs xss)
  show ?case
  proof (cases i)
    case 0
    with Cons.prems show ?thesis by (simp add: slice_def)
  next
    case (Suc i')
    with Cons.prems have "slice (k * i') (k * i' + k) (concat xss) = xss ! i'"
      by (intro Cons.IH) auto
    with Suc Cons.prems show ?thesis by (simp add: slice_def add.commute)
  qed
qed

lemma chunks_concat:
  assumes "\<forall>xs\<in>set xss. length xs = k" "length xss = n"
  shows "map (\<lambda>i. slice (k * i) (k * i + k) (concat xss)) [0..<n] = xss"
  using assms by (auto intro!: nth_equalityI simp: slice_concat)

lemma sud_eq:
  assumes "shape_ok g"
  shows "sud g = Inr ((\<forall>i<9. \<forall>j<9. g ! i ! j \<noteq> 0), map (\<lambda>i. map (\<lambda>j. fill g i j) [0..<9]) [0..<9])"
proof -
  let ?xss = "map (\<lambda>i. map (\<lambda>j. fill g i j) [0..<9]) [0..<9]"
  have m: "missing_loop g [0..<9] ([], [], []) =
      Inr (map (row_missing g) [0..<9], map (col_missing g) [0..<9], map (box_missing g) [0..<9])"
    using assms unfolding missing_loop_eq shape_ok_checks by simp
  have o: "\<forall>(i, j)\<in>set cell_order. i < 9 \<and> j < 9"
    unfolding cell_order_def by auto
  have f: "(\<forall>(i, j)\<in>set cell_order. g ! i ! j \<noteq> 0) \<longleftrightarrow> (\<forall>i<9. \<forall>j<9. g ! i ! j \<noteq> 0)"
    unfolding cell_order_def by auto
  have s: "map (\<lambda>(i, j). fill g i j) cell_order = concat ?xss"
    unfolding cell_order_def by (simp add: map_concat comp_def del: upt_Suc)
  have c: "cells g (map (row_missing g) [0..<9]) (map (col_missing g) [0..<9]) (map (box_missing g) [0..<9])
      cell_order (True, []) = Inr ((\<forall>i<9. \<forall>j<9. g ! i ! j \<noteq> 0), concat ?xss)"
    using cells_eq[OF assms refl refl refl o, of True "[]"] f s by simp
  have "map (\<lambda>i. slice (9 * i) (9 * i + 9) (concat ?xss)) [0..<9] = ?xss"
    by (rule chunks_concat) (auto simp del: upt_Suc)
  with m c show ?thesis unfolding sud_def by (simp del: upt_Suc)
qed

lemma sud_error:
  assumes "\<not> shape_ok g"
  shows "sud g = Inl IndexError"
  using assms unfolding sud_def missing_loop_eq shape_ok_checks by auto

lemma sud_Inr_shape: "sud g = Inr d \<Longrightarrow> shape_ok g"
  using sud_error by (cases "shape_ok g") auto

lemma missing_in_range: "x \<in> set (missing_in xs) \<Longrightarrow> 1 \<le> x \<and> x \<le> 9"
  unfolding missing_in_def by auto

lemma distinct_missing_in: "distinct (missing_in xs)"
  unfolding missing_in_def by (simp add: distinct_map inj_on_def)

lemma set_tmp_of:
  "set (tmp_of g i j) =
     set (row_missing g i) \<inter> set (col_missing g j) \<inter> set (box_missing g ((i div 3) * 3 + j div 3))"
  unfolding tmp_of_def by auto

lemma distinct_tmp_of: "distinct (tmp_of g i j)"
  unfolding tmp_of_def by simp

lemma tmp_of_nonzero: "x \<in> set (tmp_of g i j) \<Longrightarrow> x \<noteq> 0"
  using missing_in_range[of x "g ! i"] unfolding set_tmp_of row_missing_def by auto

lemma fill_filled: "g ! i ! j \<noteq> 0 \<Longrightarrow> fill g i j = g ! i ! j"
  by (simp add: fill_def)

lemma fill_empty:
  "g ! i ! j = 0 \<Longrightarrow> fill g i j = (if length (tmp_of g i j) = 1 then tmp_of g i j ! 0 else 0)"
  by (simp add: fill_def)

lemma fill_zero: "fill g i j = 0 \<Longrightarrow> g ! i ! j = 0"
  by (cases "g ! i ! j = 0") (simp_all add: fill_def)

lemma fill_nonzero_iff:
  assumes "g ! i ! j = 0"
  shows "fill g i j \<noteq> 0 \<longleftrightarrow> length (tmp_of g i j) = 1"
proof
  assume "fill g i j \<noteq> 0"
  with assms show "length (tmp_of g i j) = 1" by (simp add: fill_def split: if_splits)
next
  assume l: "length (tmp_of g i j) = 1"
  then have "tmp_of g i j ! 0 \<in> set (tmp_of g i j)" by simp
  then have "tmp_of g i j ! 0 \<noteq> 0" by (rule tmp_of_nonzero)
  with assms l show "fill g i j \<noteq> 0" by (simp add: fill_def)
qed

lemma length_one_card: "distinct xs \<Longrightarrow> length xs = 1 \<longleftrightarrow> card (set xs) = 1"
  by (simp add: distinct_card)

lemma length_one_set: "length xs = 1 \<Longrightarrow> set xs = {xs ! 0}"
  by (cases xs) auto

lemma sud_nth:
  assumes "sud g = Inr (fin, g')" "i < 9" "j < 9"
  shows "g' ! i ! j = fill g i j"
proof -
  from assms(1) have "shape_ok g" by (rule sud_Inr_shape)
  from sud_eq[OF this] assms(1) have "g' = map (\<lambda>i. map (\<lambda>j. fill g i j) [0..<9]) [0..<9]" by simp
  with assms(2,3) show ?thesis by (simp del: upt_Suc)
qed

lemma sud_nine_by_nine:
  assumes "sud g = Inr (fin, g')"
  shows "nine_by_nine g'"
proof -
  from assms(1) have "shape_ok g" by (rule sud_Inr_shape)
  from sud_eq[OF this] assms(1) have "g' = map (\<lambda>i. map (\<lambda>j. fill g i j) [0..<9]) [0..<9]" by simp
  then show ?thesis unfolding nine_by_nine_def by (auto simp del: upt_Suc)
qed

lemma sud_finished:
  assumes "sud g = Inr (fin, g')"
  shows "fin \<longleftrightarrow> (\<forall>i<9. \<forall>j<9. g ! i ! j \<noteq> 0)"
proof -
  from assms(1) have "shape_ok g" by (rule sud_Inr_shape)
  from sud_eq[OF this] assms(1) show ?thesis by simp
qed

lemma checks_of_sud:
  assumes "sud g = Inr (fin, g')" "r < 9" "c < 9"
  shows "checkrow r g = Inr (row_missing g r)" "checkcol c g = Inr (col_missing g c)"
    "checkbox ((r div 3) * 3 + c div 3) g = Inr (box_missing g ((r div 3) * 3 + c div 3))"
proof -
  from assms(1) have "shape_ok g" by (rule sud_Inr_shape)
  then have ok: "\<And>i. i < 9 \<Longrightarrow> checks_ok g i" unfolding shape_ok_checks by simp
  from ok[OF assms(2)] show "checkrow r g = Inr (row_missing g r)"
    by (simp add: checkrow_eq checks_ok_def)
  from ok[OF assms(3)] show "checkcol c g = Inr (col_missing g c)"
    by (simp add: checkcol_eq checks_ok_def)
  from assms(2,3) have "(r div 3) * 3 + c div 3 < 9" by (simp add: box_index_less)
  from ok[OF this] show "checkbox ((r div 3) * 3 + c div 3) g = Inr (box_missing g ((r div 3) * 3 + c div 3))"
    by (simp add: checkbox_eq checks_ok_def)
qed

lemma take_eq_map_nth: "n \<le> length xs \<Longrightarrow> take n xs = map (\<lambda>i. xs ! i) [0..<n]"
  by (auto intro!: nth_equalityI)

lemma count_map_le:
  "(\<And>x. x \<in> set xs \<Longrightarrow> P (f x) \<Longrightarrow> Q (h x)) \<Longrightarrow>
     length (filter P (map f xs)) \<le> length (filter Q (map h xs))"
  by (induction xs) auto

lemma count_take_le: "length (filter P (take n xs)) \<le> length (filter P xs)"
proof -
  have "filter P xs = filter P (take n xs) @ filter P (drop n xs)"
    by (metis append_take_drop_id filter_append)
  then show ?thesis by simp
qed

lemma count_concat_map_take_le:
  "length (filter P (concat (map (take n) xss))) \<le> length (filter P (concat xss))"
proof (induction xss)
  case Nil
  then show ?case by simp
next
  case (Cons xs xss)
  have "length (filter P (take n xs)) \<le> length (filter P xs)" by (rule count_take_le)
  with Cons show ?case by simp
qed

lemma count_concat_take_le:
  "length (filter P (concat (take n xss))) \<le> length (filter P (concat xss))"
proof -
  have "concat xss = concat (take n xss) @ concat (drop n xss)"
    by (metis append_take_drop_id concat_append)
  then show ?thesis by simp
qed

lemma concat_rows_cell_order:
  "concat (map (\<lambda>i. map (\<lambda>j. h i j) [0..<9]) [0..<9]) = map (\<lambda>(i, j). h i j) cell_order"
  unfolding cell_order_def by (simp add: map_concat comp_def del: upt_Suc)

lemma region_rows:
  assumes "shape_ok g"
  shows "map (take 9) (take 9 g) = map (\<lambda>i. map (\<lambda>j. g ! i ! j) [0..<9]) [0..<9]"
proof (rule nth_equalityI)
  from assms show "length (map (take 9) (take 9 g)) = length (map (\<lambda>i. map (\<lambda>j. g ! i ! j) [0..<9]) [0..<9])"
    unfolding shape_ok_def by simp
next
  fix i assume "i < length (map (take 9) (take 9 g))"
  then have i: "i < 9" by simp
  from shape_ok_nth[OF assms i] i
  show "map (take 9) (take 9 g) ! i = map (\<lambda>i. map (\<lambda>j. g ! i ! j) [0..<9]) [0..<9] ! i"
    by (simp add: take_eq_map_nth del: upt_Suc)
qed

lemma cell_order_less: "(i, j) \<in> set cell_order \<Longrightarrow> i < 9 \<and> j < 9"
  unfolding cell_order_def by auto

lemma slice3: "a + 3 \<le> length xs \<Longrightarrow> slice a (a + 3) xs = map (\<lambda>d. xs ! (a + d)) [0..<3]"
  unfolding slice_def by (auto intro!: nth_equalityI)

lemma box_missing_cells:
  assumes "shape_ok g" "n < 9"
  shows "box_missing g n = missing_in (map (\<lambda>(i, j). g ! i ! j) (spec_box_cells n))"
proof -
  have "slice (3 * (n mod 3)) ((n mod 3 + 1) * 3) (g ! ((n div 3) * 3 + dr)) =
          map (\<lambda>dc. g ! (3 * (n div 3) + dr) ! (3 * (n mod 3) + dc)) [0..<3]"
    if "dr \<in> set [0..<3]" for dr
  proof -
    from that have "dr < 3" by simp
    with assms(2) have "(n div 3) * 3 + dr < 9" by (rule box_index_less)
    from shape_ok_nth(2)[OF assms(1) this] have "3 * (n mod 3) + 3 \<le> length (g ! ((n div 3) * 3 + dr))"
      by arith
    from slice3[OF this] show ?thesis by (simp add: mult.commute add.commute)
  qed
  then have e: "map (\<lambda>dr. slice (3 * (n mod 3)) ((n mod 3 + 1) * 3) (g ! ((n div 3) * 3 + dr))) [0..<3] =
      map (\<lambda>dr. map (\<lambda>dc. g ! (3 * (n div 3) + dr) ! (3 * (n mod 3) + dc)) [0..<3]) [0..<3]"
    by (intro map_cong refl)
  have "map (\<lambda>(i, j). g ! i ! j) (spec_box_cells n) =
      concat (map (\<lambda>dr. map (\<lambda>dc. g ! (3 * (n div 3) + dr) ! (3 * (n mod 3) + dc)) [0..<3]) [0..<3])"
    unfolding spec_box_cells_def by (simp add: map_concat comp_def del: upt_Suc)
  with e show ?thesis unfolding box_missing_def by (simp only:)
qed

lemma set_box_cells:
  "set (spec_box_cells b) = {(3 * (b div 3) + dr, 3 * (b mod 3) + dc) | dr dc. dr < 3 \<and> dc < 3}"
  unfolding spec_box_cells_def by auto

lemma in_box_cells_iff:
  assumes "i < 9" "j < 9" "n < 9"
  shows "(i, j) \<in> set (spec_box_cells n) \<longleftrightarrow> n = (i div 3) * 3 + j div 3"
proof
  assume "(i, j) \<in> set (spec_box_cells n)"
  then obtain dr dc where "i = 3 * (n div 3) + dr" "j = 3 * (n mod 3) + dc" "dr < 3" "dc < 3"
    unfolding set_box_cells by auto
  then show "n = (i div 3) * 3 + j div 3" by simp
next
  assume n: "n = (i div 3) * 3 + j div 3"
  from assms(2) have "j div 3 < 3" by simp
  with n have "n div 3 = i div 3" "n mod 3 = j div 3" by simp_all
  then have "i = 3 * (n div 3) + i mod 3" "j = 3 * (n mod 3) + j mod 3" by simp_all
  moreover have "i mod 3 < 3" "j mod 3 < 3" by simp_all
  ultimately show "(i, j) \<in> set (spec_box_cells n)" unfolding set_box_cells by blast
qed

section \<open>The loop of the driver\<close>

lemma solve_loop_step: "solve_loop (loop_step d) = solve_loop d"
  by (cases d) (auto simp: loop_step_def solve_loop.simps split: sum.splits)

lemma solve_loop_funpow: "solve_loop ((loop_step ^^ n) d) = solve_loop d"
  by (induction n) (simp_all add: solve_loop_step)

lemma solve_loop_sweeps: "solve_loop (sweeps n g) = solve_loop (sud g)"
  unfolding sweeps_def by (rule solve_loop_funpow)

lemma solve_loop_halted:
  "halted d \<Longrightarrow> solve_loop d = Some (case d of Inl e \<Rightarrow> Inl e | Inr kv \<Rightarrow> Inr (snd kv))"
  by (cases d) (auto simp: halted_def solve_loop.simps)

lemma solve_loop_Some_halts:
  assumes "solve_loop d = Some y"
  shows "\<exists>n. halted ((loop_step ^^ n) d)"
proof (rule solve_loop.raw_induct[where P = "\<lambda>d y. \<exists>n. halted ((loop_step ^^ n) d)", OF _ assms], goal_cases)
  case (1 f d y)
  show ?case
  proof (cases d)
    case (Inl e)
    then have "halted ((loop_step ^^ 0) d)" by (simp add: halted_def)
    then show ?thesis by blast
  next
    case (Inr kv)
    show ?thesis
    proof (cases "fst kv")
      case True
      with Inr have "halted ((loop_step ^^ 0) d)" by (simp add: halted_def)
      then show ?thesis by blast
    next
      case False
      with Inr 1(2) have "f (sud (snd kv)) = Some y" by simp
      from 1(1)[OF this] obtain n where "halted ((loop_step ^^ n) (sud (snd kv)))" by blast
      moreover from Inr False have "loop_step d = sud (snd kv)" by (simp add: loop_step_def)
      ultimately have "halted ((loop_step ^^ Suc n) d)" by (simp add: funpow_swap1)
      then show ?thesis by blast
    qed
  qed
qed

lemma solve_loop_stuck:
  assumes "sud g = Inr (False, g)"
  shows "solve_loop (Inr (False, g)) = None"
proof (rule ccontr)
  assume "solve_loop (Inr (False, g)) \<noteq> None"
  then obtain y where "solve_loop (Inr (False, g)) = Some y" by blast
  from solve_loop_Some_halts[OF this] obtain n where h: "halted ((loop_step ^^ n) (Inr (False, g)))" by blast
  from assms have "loop_step (Inr (False, g)) = Inr (False, g)" by (simp add: loop_step_def)
  then have "(loop_step ^^ n) (Inr (False, g)) = Inr (False, g)" by (induction n) simp_all
  with h show False by (simp add: halted_def)
qed

lemma nine_by_nine_shape_ok: "nine_by_nine g \<Longrightarrow> shape_ok g"
  unfolding nine_by_nine_def shape_ok_def by simp

lemma grid_rows_id:
  assumes "nine_by_nine r"
  shows "map (\<lambda>i. map (\<lambda>j. r ! i ! j) [0..<9]) [0..<9] = r"
proof -
  from assms have l: "length r = 9" unfolding nine_by_nine_def by simp
  have rows: "length (r ! i) = 9" if "i < 9" for i
  proof -
    from that l have "r ! i \<in> set r" by simp
    with assms show ?thesis unfolding nine_by_nine_def by blast
  qed
  have "map (\<lambda>j. r ! i ! j) [0..<9] = r ! i" if "i < 9" for i
    using rows[OF that] map_nth[of "r ! i"] by simp
  then have "map (\<lambda>i. map (\<lambda>j. r ! i ! j) [0..<9]) [0..<9] = map (\<lambda>i. r ! i) [0..<9]"
    by (intro map_cong refl) simp
  also have "\<dots> = r" using l map_nth[of r] by simp
  finally show ?thesis .
qed

lemma nine_complete_iff:
  assumes "nine_by_nine r"
  shows "is_complete r \<longleftrightarrow> (\<forall>i<9. \<forall>j<9. r ! i ! j \<noteq> 0)"
proof -
  have "set (concat r) = set (concat (map (\<lambda>i. map (\<lambda>j. r ! i ! j) [0..<9]) [0..<9]))"
    by (simp only: grid_rows_id[OF assms])
  also have "\<dots> = {r ! i ! j | i j. i < 9 \<and> j < 9}"
    by (auto simp del: upt_Suc; blast)
  finally show ?thesis unfolding is_complete_def by force
qed

lemma sud_same_cells:
  assumes "nine_by_nine g" "\<And>i j. i < 9 \<Longrightarrow> j < 9 \<Longrightarrow> fill g i j = g ! i ! j"
  shows "sud g = Inr ((\<forall>i<9. \<forall>j<9. g ! i ! j \<noteq> 0), g)"
proof -
  have "map (\<lambda>j. fill g i j) [0..<9] = map (\<lambda>j. g ! i ! j) [0..<9]" if "i < 9" for i
    using assms(2)[OF that] by (intro map_cong refl) simp
  then have "map (\<lambda>i. map (\<lambda>j. fill g i j) [0..<9]) [0..<9] = map (\<lambda>i. map (\<lambda>j. g ! i ! j) [0..<9]) [0..<9]"
    by (intro map_cong refl) simp
  with sud_eq[OF nine_by_nine_shape_ok[OF assms(1)]] grid_rows_id[OF assms(1)]
  show ?thesis by simp
qed

lemma sud_complete:
  assumes "nine_by_nine r" "is_complete r"
  shows "sud r = Inr (True, r)"
proof -
  from assms have nz: "\<forall>i<9. \<forall>j<9. r ! i ! j \<noteq> 0" by (simp add: nine_complete_iff)
  then have "\<And>i j. i < 9 \<Longrightarrow> j < 9 \<Longrightarrow> fill r i j = r ! i ! j" by (simp add: fill_filled)
  from sud_same_cells[OF assms(1) this] nz show ?thesis by simp
qed

lemma sud_facts:
  assumes "sud g = Inr (f, g')"
  shows "nine_by_nine g'" and "\<And>i j. i < 9 \<Longrightarrow> j < 9 \<Longrightarrow> g ! i ! j \<noteq> 0 \<Longrightarrow> g' ! i ! j = g ! i ! j"
    and "f \<Longrightarrow> is_complete g'"
proof -
  show n: "nine_by_nine g'" using assms by (rule sud_nine_by_nine)
  show k: "\<And>i j. i < 9 \<Longrightarrow> j < 9 \<Longrightarrow> g ! i ! j \<noteq> 0 \<Longrightarrow> g' ! i ! j = g ! i ! j"
    using sud_nth[OF assms] by (simp add: fill_filled)
  assume f
  with sud_finished[OF assms] have "\<forall>i<9. \<forall>j<9. g ! i ! j \<noteq> 0" by simp
  with k have "\<forall>i<9. \<forall>j<9. g' ! i ! j \<noteq> 0" by simp
  with n show "is_complete g'" by (simp add: nine_complete_iff)
qed

lemma sweeps_Suc: "sweeps (Suc n) g = loop_step (sweeps n g)"
  unfolding sweeps_def by simp

lemma sweeps_facts:
  assumes "sweeps n g = Inr (f, g')"
  shows "nine_by_nine g' \<and> (\<forall>i<9. \<forall>j<9. g ! i ! j \<noteq> 0 \<longrightarrow> g' ! i ! j = g ! i ! j) \<and> (f \<longrightarrow> is_complete g')"
  using assms
proof (induction n arbitrary: f g')
  case 0
  then have "sud g = Inr (f, g')" by (simp add: sweeps_def)
  from sud_facts[OF this] show ?case by blast
next
  case (Suc n)
  from Suc.prems have s: "loop_step (sweeps n g) = Inr (f, g')" by (simp add: sweeps_Suc)
  then obtain f0 g0 where p: "sweeps n g = Inr (f0, g0)"
    by (cases "sweeps n g") (auto simp: loop_step_def)
  note ih = Suc.IH[OF p]
  show ?case
  proof (cases f0)
    case True
    with s p have "f = f0" "g' = g0" by (simp_all add: loop_step_def)
    with ih show ?thesis by simp
  next
    case False
    with s p have "sud g0 = Inr (f, g')" by (simp add: loop_step_def)
    from sud_facts[OF this] ih show ?thesis by metis
  qed
qed



section \<open>Candidates and staged values\<close>

lemma candidates_eq:
  assumes "shape_ok g" "i < 9" "j < 9"
  shows "candidates g i j = Inr (tmp_of g i j)"
proof -
  from assms(1) have ok: "\<And>i. i < 9 \<Longrightarrow> checks_ok g i" unfolding shape_ok_checks by simp
  from assms(2,3) have b: "(i div 3) * 3 + j div 3 < 9" by (simp add: box_index_less)
  from ok[OF assms(2)] have "checkrow i g = Inr (row_missing g i)"
    by (simp add: checkrow_eq checks_ok_def)
  moreover from ok[OF assms(3)] have "checkcol j g = Inr (col_missing g j)"
    by (simp add: checkcol_eq checks_ok_def)
  moreover from ok[OF b] have "checkbox ((i div 3) * 3 + j div 3) g = Inr (box_missing g ((i div 3) * 3 + j div 3))"
    by (simp add: checkbox_eq checks_ok_def)
  ultimately show ?thesis by (simp add: candidates_def tmp_of_def)
qed

lemma cell_stage:
  assumes "cell p mr mc mb i j st = Inr st'"
  shows "\<exists>v. snd st' = snd st @ [v] \<and> (\<forall>st2. \<exists>f2. cell p mr mc mb i j st2 = Inr (f2, snd st2 @ [v]))"
  using assms unfolding cell_def by (auto split: sum.splits if_splits simp: Let_def)

lemma cells_stage:
  assumes "cells p mr mc mb ijs st = Inr st'"
  shows "\<exists>vs. snd st' = snd st @ vs \<and> length vs = length ijs \<and>
           (\<forall>st2. \<exists>f2. cells p mr mc mb ijs st2 = Inr (f2, snd st2 @ vs))"
  using assms
proof (induction ijs arbitrary: st st')
  case Nil
  then have "snd st' = snd st @ []" by simp
  moreover have "\<forall>st2. \<exists>f2. cells p mr mc mb [] st2 = Inr (f2, snd st2 @ [])"
    by (simp add: prod_eq_iff)
  ultimately show ?case by (metis list.size(3))
next
  case (Cons ij ijs)
  obtain i j where ij: "ij = (i, j)" by (cases ij)
  with Cons.prems obtain st1 where c: "cell p mr mc mb i j st = Inr st1"
    and r: "cells p mr mc mb ijs st1 = Inr st'"
    by (auto split: sum.splits)
  from cell_stage[OF c] obtain v where v: "snd st1 = snd st @ [v]"
    "\<And>st2. \<exists>f2. cell p mr mc mb i j st2 = Inr (f2, snd st2 @ [v])" by blast
  from Cons.IH[OF r] obtain vs where vs: "snd st' = snd st1 @ vs" "length vs = length ijs"
    "\<And>st2. \<exists>f2. cells p mr mc mb ijs st2 = Inr (f2, snd st2 @ vs)" by blast
  have "\<exists>f2. cells p mr mc mb (ij # ijs) st2 = Inr (f2, snd st2 @ (v # vs))" for st2
  proof -
    from v(2)[of st2] obtain f1 where "cell p mr mc mb i j st2 = Inr (f1, snd st2 @ [v])" by blast
    moreover from vs(3)[of "(f1, snd st2 @ [v])"] obtain f2
      where "cells p mr mc mb ijs (f1, snd st2 @ [v]) = Inr (f2, (snd st2 @ [v]) @ vs)" by auto
    ultimately show ?thesis using ij by simp
  qed
  moreover from v(1) vs(1) have "snd st' = snd st @ (v # vs)" by simp
  moreover from vs(2) have "length (v # vs) = length (ij # ijs)" by simp
  ultimately show ?case by blast
qed

section \<open>Reading the input\<close>

lemma int_of_char_range: "int_of_char ch = Inr v \<Longrightarrow> 0 \<le> v \<and> v \<le> 9"
  unfolding int_of_char_def by (auto split: if_splits)

lemma map_int_range: "map_int chs = Inr vs \<Longrightarrow> \<forall>v\<in>set vs. 0 \<le> v \<and> v \<le> 9"
proof (induction chs arbitrary: vs)
  case Nil
  then show ?case by simp
next
  case (Cons ch chs)
  then obtain v vs' where "int_of_char ch = Inr v" "map_int chs = Inr vs'" "vs = v # vs'"
    by (auto split: sum.splits)
  with Cons.IH[of vs'] int_of_char_range[of ch v] show ?case by simp
qed

lemma read_rows_facts:
  "read_rows k stdin acc = Inr g \<Longrightarrow>
     length g = length acc + k \<and> (\<forall>row\<in>set g. row \<in> set acc \<or> (\<forall>v\<in>set row. 0 \<le> v \<and> v \<le> 9))"
proof (induction k stdin acc rule: read_rows.induct)
  case (1 stdin puzzle)
  then show ?case by simp
next
  case (2 k puzzle)
  then show ?case by simp
next
  case (3 k inp stdin puzzle)
  from 3(2) obtain row where r: "map_int inp = Inr row" "read_rows k stdin (puzzle @ [row]) = Inr g"
    by (auto split: sum.splits)
  from 3(1)[OF r] map_int_range[OF r(1)] show ?case by auto
qed

lemma int_of_char_eq:
  "int_of_char ch = (if is_digit ch then Inr (int (of_char ch) - 48) else Inl ValueError)"
  by (simp only: int_of_char_def is_digit_def)

lemma map_int_eq:
  "map_int chs =
     (if \<forall>ch\<in>set chs. is_digit ch
      then Inr (map (\<lambda>ch. int (of_char ch) - 48) chs) else Inl ValueError)"
  by (induction chs) (simp_all add: int_of_char_eq)

lemma read_rows_eq:
  "read_rows k stdin acc =
     (if \<exists>inp\<in>set (take k stdin). \<exists>ch\<in>set inp. \<not> is_digit ch then Inl ValueError
      else if length stdin < k then Inl EOFError
      else Inr (acc @ map (map (\<lambda>ch. int (of_char ch) - 48)) (take k stdin)))"
proof (induction k stdin acc rule: read_rows.induct)
  case (1 stdin puzzle)
  then show ?case by simp
next
  case (2 k puzzle)
  then show ?case by simp
next
  case (3 k inp stdin puzzle)
  show ?case
  proof (cases "\<forall>ch\<in>set inp. is_digit ch")
    case True
    then have m: "map_int inp = Inr (map (\<lambda>ch. int (of_char ch) - 48) inp)"
      by (simp add: map_int_eq)
    from 3[OF m] m True show ?thesis by simp
  next
    case False
    then have m: "map_int inp = Inl ValueError" by (simp add: map_int_eq)
    with False show ?thesis by auto
  qed
qed

lemma read_rows_eq_chars:
  "read_rows k stdin acc =
     (if \<exists>inp\<in>set (take k stdin). \<exists>ch\<in>set inp. ch \<notin> set ''0123456789'' then Inl ValueError
      else if length stdin < k then Inl EOFError
      else Inr (acc @ map (map (\<lambda>ch. int (of_char ch) - 48)) (take k stdin)))"
  using read_rows_eq[of k stdin acc] by (simp only: is_digit_def)

lemma read_rows_ValueError:
  "read_rows 9 stdin [] = Inl ValueError \<longleftrightarrow>
     (\<exists>inp\<in>set (take 9 stdin). \<exists>ch\<in>set inp. ch \<notin> set ''0123456789'')"
  by (simp only: read_rows_eq_chars split: if_splits) auto

lemma read_rows_EOFError:
  "read_rows 9 stdin [] = Inl EOFError \<longleftrightarrow>
     length stdin < 9 \<and> (\<forall>inp\<in>set stdin. \<forall>ch\<in>set inp. ch \<in> set ''0123456789'')"
proof -
  have t: "take 9 stdin = stdin" if "length stdin < 9" using that by simp
  have "read_rows 9 stdin [] = Inl EOFError \<longleftrightarrow>
      length stdin < 9 \<and> (\<forall>inp\<in>set stdin. \<forall>ch\<in>set inp. is_digit ch)"
    unfolding read_rows_eq using t by auto
  then show ?thesis by (simp only: is_digit_def)
qed

section \<open>The claims\<close>

text \<open>
  Claim C1, as amended. If the repeated sweeps of a grid reach a result keyed \<^verbatim>\<open>True\<close>,
  the solve process terminates and returns a grid that is complete and that matches the input
  on every cell that was nonzero in it. That the grid has a solution is not enough: on the
  empty grid the loop never ends.
\<close>

theorem solve_loop_returns_completed_grid:
  assumes "sweeps n puzzle = Inr (True, r)"
  shows "solve_loop (sud puzzle) = Some (Inr r) \<and> is_complete r \<and>
         (\<forall>i<9. \<forall>j<9. puzzle ! i ! j \<noteq> 0 \<longrightarrow> r ! i ! j = puzzle ! i ! j)"
proof -
  from assms have "halted (sweeps n puzzle)" by (simp add: halted_def)
  from solve_loop_halted[OF this] assms have "solve_loop (sweeps n puzzle) = Some (Inr r)" by simp
  then have "solve_loop (sud puzzle) = Some (Inr r)" by (simp only: solve_loop_sweeps)
  with sweeps_facts[OF assms] show ?thesis by simp
qed

theorem solve_loop_returns_completed_grid_witness:
  "sweeps 9 example_puzzle = Inr (True, example_solved) \<and>
   solve_loop (sud example_puzzle) = Some (Inr example_solved) \<and> is_complete example_solved \<and>
   example_puzzle ! 0 ! 1 = 2 \<and> example_solved ! 0 ! 1 = 2"
proof -
  have h: "sweeps 9 example_puzzle = Inr (True, example_solved)" by code_simp
  have z: "example_puzzle ! 0 ! 1 = 2" by (simp add: example_puzzle_def)
  from solve_loop_returns_completed_grid[OF h] h z show ?thesis by simp
qed

theorem solve_loop_solvable_counterexample:
  "spec_solution_of example_solved zero_grid \<and> solve_loop (sud zero_grid) = None"
proof -
  have s: "spec_solution_of example_solved zero_grid" by code_simp
  have h: "sud zero_grid = Inr (False, zero_grid)" by code_simp
  from solve_loop_stuck[OF h] h s show ?thesis by simp
qed

text \<open>
  Claim C2, as amended. The loop sweeps again whenever the last result is keyed
  \<^verbatim>\<open>False\<close>, whether or not the sweep assigned a cell. It terminates exactly when some
  sweep raises or returns a result keyed \<^verbatim>\<open>True\<close>; when a sweep of a grid returns the
  same grid keyed \<^verbatim>\<open>False\<close>, the loop never ends.
\<close>

theorem solve_loop_terminates_iff:
  "(solve_loop (sud puzzle) \<noteq> None \<longleftrightarrow> (\<exists>n. halted (sweeps n puzzle))) \<and>
   (sud puzzle = Inr (False, puzzle) \<longrightarrow> solve_loop (sud puzzle) = None)"
proof (intro conjI iffI impI)
  assume "solve_loop (sud puzzle) \<noteq> None"
  then obtain y where "solve_loop (sud puzzle) = Some y" by blast
  from solve_loop_Some_halts[OF this] show "\<exists>n. halted (sweeps n puzzle)"
    unfolding sweeps_def .
next
  assume "\<exists>n. halted (sweeps n puzzle)"
  then obtain n where "halted (sweeps n puzzle)" by blast
  from solve_loop_halted[OF this] show "solve_loop (sud puzzle) \<noteq> None"
    by (simp add: solve_loop_sweeps)
next
  assume h: "sud puzzle = Inr (False, puzzle)"
  from solve_loop_stuck[OF h] h show "solve_loop (sud puzzle) = None" by simp
qed

theorem solve_loop_terminates_iff_witness:
  "halted (sweeps 9 example_puzzle) \<and> solve_loop (sud example_puzzle) \<noteq> None \<and>
   sud zero_grid = Inr (False, zero_grid) \<and> solve_loop (sud zero_grid) = None"
proof -
  have h: "halted (sweeps 9 example_puzzle)" by code_simp
  have z: "sud zero_grid = Inr (False, zero_grid)" by code_simp
  from solve_loop_terminates_iff[of example_puzzle] solve_loop_terminates_iff[of zero_grid] h z
  show ?thesis by blast
qed

theorem solve_loop_no_assignment_counterexample:
  "sud one_clue_grid = Inr (False, one_clue_grid) \<and> solve_loop (sud one_clue_grid) = None"
proof -
  have h: "sud one_clue_grid = Inr (False, one_clue_grid)" by code_simp
  from solve_loop_stuck[OF h] h show ?thesis by simp
qed

text \<open>
  Claim C3, as amended. When an empty cell of a grid of nine rows of at least nine values has
  no candidate, the sweep reports nothing and does not stop: it leaves the cell 0, treats
  every other cell as usual (a cell with a single candidate is assigned it), and returns a
  nine by nine grid keyed \<^verbatim>\<open>False\<close>.
\<close>

theorem sud_empty_candidates_no_abort:
  assumes "shape_ok puzzle" and "i < 9" and "j < 9" and "puzzle ! i ! j = 0"
    and "candidates puzzle i j = Inr []"
  shows "\<exists>solution1. sud puzzle = Inr (False, solution1) \<and> nine_by_nine solution1 \<and>
           solution1 ! i ! j = 0 \<and>
           (\<forall>k<9. \<forall>l<9. \<forall>v. puzzle ! k ! l = 0 \<and> candidates puzzle k l = Inr [v] \<longrightarrow>
              solution1 ! k ! l = v)"
proof -
  let ?s = "map (\<lambda>i. map (\<lambda>j. fill puzzle i j) [0..<9]) [0..<9]"
  from assms(2-4) have "\<not> (\<forall>i<9. \<forall>j<9. puzzle ! i ! j \<noteq> 0)" by blast
  with sud_eq[OF assms(1)] have s: "sud puzzle = Inr (False, ?s)" by simp
  have n: "nine_by_nine ?s" using s by (rule sud_nine_by_nine)
  from candidates_eq[OF assms(1-3)] assms(5) have "tmp_of puzzle i j = []" by simp
  with assms(4) have "fill puzzle i j = 0" by (simp add: fill_def)
  with sud_nth[OF s assms(2,3)] have z: "?s ! i ! j = 0" by simp
  have "?s ! k ! l = v" if "k < 9" "l < 9" "puzzle ! k ! l = 0" "candidates puzzle k l = Inr [v]" for k l v
  proof -
    from candidates_eq[OF assms(1) that(1,2)] that(4) have "tmp_of puzzle k l = [v]" by simp
    with that(3) have "fill puzzle k l = v" by (simp add: fill_def)
    with sud_nth[OF s that(1,2)] show ?thesis by simp
  qed
  with s n z show ?thesis by blast
qed

theorem sud_empty_candidates_no_abort_witness:
  "shape_ok dead_cell_grid \<and> dead_cell_grid ! 0 ! 0 = 0 \<and> candidates dead_cell_grid 0 0 = Inr [] \<and>
   dead_cell_grid ! 8 ! 8 = 0 \<and> candidates dead_cell_grid 8 8 = Inr [9] \<and>
   (\<exists>solution1. sud dead_cell_grid = Inr (False, solution1) \<and> nine_by_nine solution1 \<and>
      solution1 ! 0 ! 0 = 0 \<and> solution1 ! 8 ! 8 = 9)"
proof -
  have s: "shape_ok dead_cell_grid" by code_simp
  have z: "dead_cell_grid ! 0 ! 0 = 0" by code_simp
  have c: "candidates dead_cell_grid 0 0 = Inr []" by code_simp
  have z8: "dead_cell_grid ! 8 ! 8 = 0" by code_simp
  have c8: "candidates dead_cell_grid 8 8 = Inr [9]" by code_simp
  have lt: "(0::nat) < 9" "(8::nat) < 9" by simp_all
  from sud_empty_candidates_no_abort[OF s lt(1) lt(1) z c] obtain solution1
    where r: "sud dead_cell_grid = Inr (False, solution1)" "nine_by_nine solution1"
      "solution1 ! 0 ! 0 = 0"
      "\<forall>k<9. \<forall>l<9. \<forall>v. dead_cell_grid ! k ! l = 0 \<and> candidates dead_cell_grid k l = Inr [v] \<longrightarrow>
              solution1 ! k ! l = v"
    by blast
  from r(4) lt(2) z8 c8 have "solution1 ! 8 ! 8 = 9" by blast
  with r(1-3) s z c z8 c8 show ?thesis by blast
qed

theorem sud_empty_candidates_counterexample:
  "dead_cell_grid ! 0 ! 0 = 0 \<and> candidates dead_cell_grid 0 0 = Inr [] \<and>
   sud dead_cell_grid = Inr (False, dead_cell_sweep) \<and>
   dead_cell_grid ! 8 ! 8 = 0 \<and> dead_cell_sweep ! 8 ! 8 = 9"
  by code_simp

text \<open>
  Claim C4, as amended. The driver checks nothing. It reads the first nine lines in order:
  when one of the lines it reads has a character that is no digit the script ends with
  \<^verbatim>\<open>ValueError\<close>; otherwise, when the input has fewer than nine lines, with
  \<^verbatim>\<open>EOFError\<close>; otherwise the grid read, nine rows of digits from 0 to 9, is handed to the
  solver. The first sweep raises \<^verbatim>\<open>IndexError\<close> exactly when a row has fewer than nine
  values and returns a result otherwise, whatever the values are; a grid of nine rows of nine
  nonzero digits is returned as the solved result, duplicates or not.
\<close>

theorem sudoku_no_validity_check:
  "(read_rows 9 stdin [] = Inl ValueError \<longleftrightarrow>
      (\<exists>inp\<in>set (take 9 stdin). \<exists>ch\<in>set inp. ch \<notin> set ''0123456789'')) \<and>
   (read_rows 9 stdin [] = Inl EOFError \<longleftrightarrow>
      length stdin < 9 \<and> (\<forall>inp\<in>set stdin. \<forall>ch\<in>set inp. ch \<in> set ''0123456789'')) \<and>
   (\<forall>e. read_rows 9 stdin [] = Inl e \<longrightarrow> sudoku stdin = Some (Inl e)) \<and>
   (\<forall>puzzle. read_rows 9 stdin [] = Inr puzzle \<longrightarrow>
      sudoku stdin = solve_loop (sud puzzle) \<and> length puzzle = 9 \<and>
      (\<forall>v\<in>set (concat puzzle). 0 \<le> v \<and> v \<le> 9) \<and>
      (sud puzzle = Inl IndexError \<longleftrightarrow> (\<exists>row\<in>set puzzle. length row < 9)) \<and>
      ((\<exists>d. sud puzzle = Inr d) \<longleftrightarrow> (\<forall>row\<in>set puzzle. 9 \<le> length row)) \<and>
      ((\<forall>row\<in>set puzzle. length row = 9) \<and> is_complete puzzle \<longrightarrow>
         sudoku stdin = Some (Inr puzzle)))"
proof (intro conjI allI impI)
  show "read_rows 9 stdin [] = Inl ValueError \<longleftrightarrow>
      (\<exists>inp\<in>set (take 9 stdin). \<exists>ch\<in>set inp. ch \<notin> set ''0123456789'')"
    by (rule read_rows_ValueError)
next
  show "read_rows 9 stdin [] = Inl EOFError \<longleftrightarrow>
      length stdin < 9 \<and> (\<forall>inp\<in>set stdin. \<forall>ch\<in>set inp. ch \<in> set ''0123456789'')"
    by (rule read_rows_EOFError)
next
  fix e assume "read_rows 9 stdin [] = Inl e"
  then show "sudoku stdin = Some (Inl e)" by (simp add: sudoku_def)
next
  fix puzzle assume a: "read_rows 9 stdin [] = Inr puzzle"
  from read_rows_facts[OF a] have l: "length puzzle = 9"
    and r: "\<forall>v\<in>set (concat puzzle). 0 \<le> v \<and> v \<le> 9" by auto
  from l have sh: "shape_ok puzzle \<longleftrightarrow> (\<forall>row\<in>set puzzle. 9 \<le> length row)"
    unfolding shape_ok_def by simp
  have e: "sud puzzle = Inl IndexError \<longleftrightarrow> (\<exists>row\<in>set puzzle. length row < 9)"
  proof (cases "shape_ok puzzle")
    case True
    from sud_eq[OF True] True sh show ?thesis by (auto simp: not_less)
  next
    case False
    from sud_error[OF False] False sh show ?thesis by (auto simp: not_le)
  qed
  have d: "(\<exists>d. sud puzzle = Inr d) \<longleftrightarrow> (\<forall>row\<in>set puzzle. 9 \<le> length row)"
  proof (cases "shape_ok puzzle")
    case True
    from sud_eq[OF True] True sh show ?thesis by auto
  next
    case False
    from sud_error[OF False] False sh show ?thesis by auto
  qed
  have s: "sudoku stdin = solve_loop (sud puzzle)" using a by (simp add: sudoku_def)
  have c: "sudoku stdin = Some (Inr puzzle)" if "(\<forall>row\<in>set puzzle. length row = 9) \<and> is_complete puzzle"
  proof -
    from l that have n: "nine_by_nine puzzle" unfolding nine_by_nine_def by simp
    from sud_complete[OF n] that s show ?thesis by (simp add: solve_loop.simps)
  qed
  show "sudoku stdin = solve_loop (sud puzzle)" by (rule s)
  show "length puzzle = 9" by (rule l)
  show "\<forall>v\<in>set (concat puzzle). 0 \<le> v \<and> v \<le> 9" by (rule r)
  show "sud puzzle = Inl IndexError \<longleftrightarrow> (\<exists>row\<in>set puzzle. length row < 9)" by (rule e)
  show "(\<exists>d. sud puzzle = Inr d) \<longleftrightarrow> (\<forall>row\<in>set puzzle. 9 \<le> length row)" by (rule d)
  show "sudoku stdin = Some (Inr puzzle)" if "(\<forall>row\<in>set puzzle. length row = 9) \<and> is_complete puzzle"
    using that by (rule c)
qed

theorem sudoku_no_validity_check_witness:
  "read_rows 9 ones_input [] = Inr ones_grid \<and> sudoku ones_input = Some (Inr ones_grid) \<and>
   length ones_grid = 9 \<and> sud ones_grid \<noteq> Inl IndexError \<and> is_complete ones_grid \<and>
   length space_input < 9 \<and> read_rows 9 space_input [] = Inl ValueError \<and>
   sudoku space_input = Some (Inl ValueError) \<and>
   length short_input < 9 \<and> read_rows 9 short_input [] = Inl EOFError \<and>
   sudoku short_input = Some (Inl EOFError)"
proof -
  have h: "read_rows 9 ones_input [] = Inr ones_grid" by code_simp
  have c: "is_complete ones_grid" by code_simp
  have n: "list_all (\<lambda>row. length row = 9) ones_grid" by code_simp
  then have n': "\<forall>row\<in>set ones_grid. length row = 9" by (simp add: list_all_iff)
  have v: "read_rows 9 space_input [] = Inl ValueError" by code_simp
  have e: "read_rows 9 short_input [] = Inl EOFError" by code_simp
  have l: "length space_input < 9" "length short_input < 9" by code_simp+
  note t1 = sudoku_no_validity_check[of ones_input]
  note t2 = sudoku_no_validity_check[of space_input]
  note t3 = sudoku_no_validity_check[of short_input]
  from t1 h c n' have a: "sudoku ones_input = Some (Inr ones_grid)" "length ones_grid = 9"
    "sud ones_grid \<noteq> Inl IndexError" by auto
  from t2 v have b: "sudoku space_input = Some (Inl ValueError)" by blast
  from t3 e have d: "sudoku short_input = Some (Inl EOFError)" by blast
  from a b d h c v e l show ?thesis by simp
qed

theorem sudoku_duplicate_clue_counterexample:
  "read_rows 9 dup_input [] = Inr dup_grid \<and> \<not> spec_is_valid dup_grid \<and>
   sudoku dup_input = Some (Inr dup_result) \<and> \<not> spec_is_valid dup_result"
proof -
  have h: "read_rows 9 dup_input [] = Inr dup_grid" by code_simp
  have v: "\<not> spec_is_valid dup_grid" "\<not> spec_is_valid dup_result" by code_simp+
  have s: "sweeps 9 dup_grid = Inr (True, dup_result)" by code_simp
  then have "halted (sweeps 9 dup_grid)" by (simp add: halted_def)
  from solve_loop_halted[OF this] have "solve_loop (sud dup_grid) = Some (Inr dup_result)"
    unfolding solve_loop_sweeps unfolding s by simp
  with h v show ?thesis by (simp add: sudoku_def)
qed

text \<open>
  Claim C5. For every empty cell \<open>(r, c)\<close>, the sweep takes as candidates the intersection of
  the missing numbers of row \<open>r\<close>, of column \<open>c\<close> and of box \<open>(r div 3) * 3 + c div 3\<close>, and it
  assigns the cell in that sweep if and only if the intersection has exactly one element;
  the value assigned is that element.
\<close>

theorem sud_assigns_single_candidate:
  assumes "sud puzzle = Inr (finished, solution1)" and "r < 9" and "c < 9"
    and "puzzle ! r ! c = 0"
  shows "\<exists>mr mc mb.
           checkrow r puzzle = Inr mr \<and> checkcol c puzzle = Inr mc \<and>
           checkbox ((r div 3) * 3 + c div 3) puzzle = Inr mb \<and>
           (solution1 ! r ! c \<noteq> 0 \<longleftrightarrow> card (set mr \<inter> set mc \<inter> set mb) = 1) \<and>
           (solution1 ! r ! c \<noteq> 0 \<longrightarrow> set mr \<inter> set mc \<inter> set mb = {solution1 ! r ! c})"
proof -
  let ?mr = "row_missing puzzle r" and ?mc = "col_missing puzzle c"
    and ?mb = "box_missing puzzle ((r div 3) * 3 + c div 3)"
  have v: "solution1 ! r ! c = fill puzzle r c" using assms(1-3) by (rule sud_nth)
  have s: "set (tmp_of puzzle r c) = set ?mr \<inter> set ?mc \<inter> set ?mb" by (rule set_tmp_of)
  have "solution1 ! r ! c \<noteq> 0 \<longleftrightarrow> length (tmp_of puzzle r c) = 1"
    unfolding v using assms(4) by (rule fill_nonzero_iff)
  also have "\<dots> \<longleftrightarrow> card (set ?mr \<inter> set ?mc \<inter> set ?mb) = 1"
    using length_one_card[OF distinct_tmp_of, of puzzle r c] unfolding s .
  finally have a: "solution1 ! r ! c \<noteq> 0 \<longleftrightarrow> card (set ?mr \<inter> set ?mc \<inter> set ?mb) = 1" .
  have b: "solution1 ! r ! c \<noteq> 0 \<longrightarrow> set ?mr \<inter> set ?mc \<inter> set ?mb = {solution1 ! r ! c}"
  proof
    assume "solution1 ! r ! c \<noteq> 0"
    then have l: "length (tmp_of puzzle r c) = 1"
      unfolding v using fill_nonzero_iff[OF assms(4)] by simp
    then have "fill puzzle r c = tmp_of puzzle r c ! 0" using assms(4) by (simp add: fill_def)
    with length_one_set[OF l] show "set ?mr \<inter> set ?mc \<inter> set ?mb = {solution1 ! r ! c}"
      unfolding v s by simp
  qed
  from checks_of_sud[OF assms(1-3)] a b show ?thesis by blast
qed

theorem sud_assigns_single_candidate_witness:
  "sud example_puzzle = Inr (False, example_sweep1) \<and> example_puzzle ! 1 ! 3 = 0 \<and>
   example_sweep1 ! 1 ! 3 = 7 \<and>
   (\<exists>mr mc mb. checkrow 1 example_puzzle = Inr mr \<and> checkcol 3 example_puzzle = Inr mc \<and>
      checkbox 1 example_puzzle = Inr mb \<and> card (set mr \<inter> set mc \<inter> set mb) = 1 \<and>
      set mr \<inter> set mc \<inter> set mb = {7})"
proof -
  have h: "sud example_puzzle = Inr (False, example_sweep1)" by code_simp
  have z: "example_puzzle ! 1 ! 3 = 0" by (simp add: example_puzzle_def)
  have v: "example_sweep1 ! 1 ! 3 = 7" by (simp add: example_sweep1_def)
  have lt: "(1::nat) < 9" "(3::nat) < 9" by simp_all
  from sud_assigns_single_candidate[OF h lt z] v h z show ?thesis by auto
qed

text \<open>
  Claim C6. Box \<open>n\<close> covers the nine cells \<open>(3 * (n div 3) + dr, 3 * (n mod 3) + dc)\<close> with
  \<open>dr\<close> and \<open>dc\<close> from 0 to 2: \<^verbatim>\<open>checkbox\<close> computes the missing numbers of box \<open>n\<close> over
  exactly those cells, and a cell \<open>(i, j)\<close> lies in box \<open>n\<close> exactly when
  \<open>n = (i div 3) * 3 + j div 3\<close>. The sweep looks an empty cell up in that box: in the output
  of \<^verbatim>\<open>sud\<close> the cell is assigned exactly when one number is missing at once from its row,
  from its column and from the nine cells of the box \<open>(i div 3) * 3 + j div 3\<close>, which covers
  the cell, and the number assigned occurs in none of these nine cells.
\<close>

theorem checkbox_covers_box_cells:
  assumes "shape_ok puzzle" and "n < 9"
  shows "checkbox n puzzle = Inr (missing_in (map (\<lambda>(i, j). puzzle ! i ! j) (spec_box_cells n))) \<and>
         (\<forall>i<9. \<forall>j<9. (i, j) \<in> set (spec_box_cells n) \<longleftrightarrow> n = (i div 3) * 3 + j div 3) \<and>
         (\<exists>finished solution1. sud puzzle = Inr (finished, solution1) \<and>
            (\<forall>i<9. \<forall>j<9. puzzle ! i ! j = 0 \<longrightarrow>
               (i, j) \<in> set (spec_box_cells ((i div 3) * 3 + j div 3)) \<and>
               (\<exists>mr mc mb. checkrow i puzzle = Inr mr \<and> checkcol j puzzle = Inr mc \<and>
                  mb = missing_in (map (\<lambda>(k, l). puzzle ! k ! l) (spec_box_cells ((i div 3) * 3 + j div 3))) \<and>
                  (solution1 ! i ! j \<noteq> 0 \<longleftrightarrow> card (set mr \<inter> set mc \<inter> set mb) = 1) \<and>
                  (solution1 ! i ! j \<noteq> 0 \<longrightarrow> set mr \<inter> set mc \<inter> set mb = {solution1 ! i ! j}) \<and>
                  (solution1 ! i ! j \<noteq> 0 \<longrightarrow>
                     (\<forall>(k, l)\<in>set (spec_box_cells ((i div 3) * 3 + j div 3)).
                        puzzle ! k ! l \<noteq> solution1 ! i ! j)))))"
proof (intro conjI)
  from assms have "checks_ok puzzle n" unfolding shape_ok_checks by simp
  then show "checkbox n puzzle = Inr (missing_in (map (\<lambda>(i, j). puzzle ! i ! j) (spec_box_cells n)))"
    by (simp add: checkbox_eq checks_ok_def box_missing_cells[OF assms])
next
  show "\<forall>i<9. \<forall>j<9. (i, j) \<in> set (spec_box_cells n) \<longleftrightarrow> n = (i div 3) * 3 + j div 3"
    using assms(2) by (simp add: in_box_cells_iff)
next
  let ?fin = "\<forall>i<9. \<forall>j<9. puzzle ! i ! j \<noteq> 0"
  let ?sol = "map (\<lambda>i. map (\<lambda>j. fill puzzle i j) [0..<9]) [0..<9]"
  have s: "sud puzzle = Inr (?fin, ?sol)" using assms(1) by (rule sud_eq)
  have cellfact: "(i, j) \<in> set (spec_box_cells ((i div 3) * 3 + j div 3)) \<and>
      (\<exists>mr mc mb. checkrow i puzzle = Inr mr \<and> checkcol j puzzle = Inr mc \<and>
         mb = missing_in (map (\<lambda>(k, l). puzzle ! k ! l) (spec_box_cells ((i div 3) * 3 + j div 3))) \<and>
         (?sol ! i ! j \<noteq> 0 \<longleftrightarrow> card (set mr \<inter> set mc \<inter> set mb) = 1) \<and>
         (?sol ! i ! j \<noteq> 0 \<longrightarrow> set mr \<inter> set mc \<inter> set mb = {?sol ! i ! j}) \<and>
         (?sol ! i ! j \<noteq> 0 \<longrightarrow>
            (\<forall>(k, l)\<in>set (spec_box_cells ((i div 3) * 3 + j div 3)). puzzle ! k ! l \<noteq> ?sol ! i ! j)))"
    if ij: "i < 9" "j < 9" and z: "puzzle ! i ! j = 0" for i j
  proof -
    let ?b = "(i div 3) * 3 + j div 3"
    let ?mr = "row_missing puzzle i" and ?mc = "col_missing puzzle j"
    let ?mb = "missing_in (map (\<lambda>(k, l). puzzle ! k ! l) (spec_box_cells ?b))"
    from ij have b: "?b < 9" by (simp add: box_index_less)
    have bm: "box_missing puzzle ?b = ?mb" using assms(1) b by (rule box_missing_cells)
    have inb: "(i, j) \<in> set (spec_box_cells ?b)" using ij b by (simp add: in_box_cells_iff)
    have v: "?sol ! i ! j = fill puzzle i j" using s ij by (rule sud_nth)
    have st: "set (tmp_of puzzle i j) = set ?mr \<inter> set ?mc \<inter> set ?mb"
      unfolding set_tmp_of bm ..
    have "?sol ! i ! j \<noteq> 0 \<longleftrightarrow> length (tmp_of puzzle i j) = 1"
      unfolding v using z by (rule fill_nonzero_iff)
    also have "\<dots> \<longleftrightarrow> card (set ?mr \<inter> set ?mc \<inter> set ?mb) = 1"
      using length_one_card[OF distinct_tmp_of, of puzzle i j] unfolding st .
    finally have a: "?sol ! i ! j \<noteq> 0 \<longleftrightarrow> card (set ?mr \<inter> set ?mc \<inter> set ?mb) = 1" .
    have e: "set ?mr \<inter> set ?mc \<inter> set ?mb = {?sol ! i ! j}" if nz: "?sol ! i ! j \<noteq> 0"
    proof -
      from nz have l: "length (tmp_of puzzle i j) = 1"
        unfolding v using fill_nonzero_iff[OF z] by simp
      then have "fill puzzle i j = tmp_of puzzle i j ! 0" using z by (simp add: fill_def)
      with length_one_set[OF l] show ?thesis unfolding v st by simp
    qed
    have o: "\<forall>(k, l)\<in>set (spec_box_cells ?b). puzzle ! k ! l \<noteq> ?sol ! i ! j" if nz: "?sol ! i ! j \<noteq> 0"
    proof -
      from e[OF nz] have "?sol ! i ! j \<in> set ?mb" by blast
      then show ?thesis unfolding missing_in_def by force
    qed
    from checks_of_sud(1,2)[OF s ij] inb a e o show ?thesis by blast
  qed
  from s cellfact
  show "\<exists>finished solution1. sud puzzle = Inr (finished, solution1) \<and>
          (\<forall>i<9. \<forall>j<9. puzzle ! i ! j = 0 \<longrightarrow>
             (i, j) \<in> set (spec_box_cells ((i div 3) * 3 + j div 3)) \<and>
             (\<exists>mr mc mb. checkrow i puzzle = Inr mr \<and> checkcol j puzzle = Inr mc \<and>
                mb = missing_in (map (\<lambda>(k, l). puzzle ! k ! l) (spec_box_cells ((i div 3) * 3 + j div 3))) \<and>
                (solution1 ! i ! j \<noteq> 0 \<longleftrightarrow> card (set mr \<inter> set mc \<inter> set mb) = 1) \<and>
                (solution1 ! i ! j \<noteq> 0 \<longrightarrow> set mr \<inter> set mc \<inter> set mb = {solution1 ! i ! j}) \<and>
                (solution1 ! i ! j \<noteq> 0 \<longrightarrow>
                   (\<forall>(k, l)\<in>set (spec_box_cells ((i div 3) * 3 + j div 3)).
                      puzzle ! k ! l \<noteq> solution1 ! i ! j))))"
    by blast
qed

theorem checkbox_covers_box_cells_witness:
  "shape_ok example_puzzle \<and> (1::nat) < 9 \<and>
   checkbox 1 example_puzzle =
     Inr (missing_in (map (\<lambda>(i, j). example_puzzle ! i ! j) (spec_box_cells 1))) \<and>
   (1, 3) \<in> set (spec_box_cells 1) \<and>
   sud example_puzzle = Inr (False, example_sweep1) \<and> example_puzzle ! 1 ! 3 = 0 \<and>
   example_sweep1 ! 1 ! 3 = 7 \<and>
   (\<exists>mr mc. checkrow 1 example_puzzle = Inr mr \<and> checkcol 3 example_puzzle = Inr mc \<and>
      set mr \<inter> set mc \<inter>
        set (missing_in (map (\<lambda>(k, l). example_puzzle ! k ! l) (spec_box_cells 1))) = {7}) \<and>
   example_puzzle ! 0 ! 3 = 9 \<and> (0, 3) \<in> set (spec_box_cells 1)"
proof -
  have s: "shape_ok example_puzzle" by code_simp
  have n: "(1::nat) < 9" by simp
  have h: "sud example_puzzle = Inr (False, example_sweep1)" by code_simp
  have z: "example_puzzle ! 1 ! 3 = 0" by (simp add: example_puzzle_def)
  have v: "example_sweep1 ! 1 ! 3 = 7" by (simp add: example_sweep1_def)
  have o: "example_puzzle ! 0 ! 3 = 9" by (simp add: example_puzzle_def)
  have m: "(0, 3) \<in> set (spec_box_cells 1)" by code_simp
  have b: "(1 div 3) * 3 + 3 div 3 = (1::nat)" by simp
  note t = checkbox_covers_box_cells[OF s n]
  from t have c1: "checkbox 1 example_puzzle =
     Inr (missing_in (map (\<lambda>(i, j). example_puzzle ! i ! j) (spec_box_cells 1)))" by blast
  from t obtain finished solution1 where r: "sud example_puzzle = Inr (finished, solution1)"
    and a: "\<forall>i<9. \<forall>j<9. example_puzzle ! i ! j = 0 \<longrightarrow>
             (i, j) \<in> set (spec_box_cells ((i div 3) * 3 + j div 3)) \<and>
             (\<exists>mr mc mb. checkrow i example_puzzle = Inr mr \<and> checkcol j example_puzzle = Inr mc \<and>
                mb = missing_in (map (\<lambda>(k, l). example_puzzle ! k ! l) (spec_box_cells ((i div 3) * 3 + j div 3))) \<and>
                (solution1 ! i ! j \<noteq> 0 \<longleftrightarrow> card (set mr \<inter> set mc \<inter> set mb) = 1) \<and>
                (solution1 ! i ! j \<noteq> 0 \<longrightarrow> set mr \<inter> set mc \<inter> set mb = {solution1 ! i ! j}) \<and>
                (solution1 ! i ! j \<noteq> 0 \<longrightarrow>
                   (\<forall>(k, l)\<in>set (spec_box_cells ((i div 3) * 3 + j div 3)).
                      example_puzzle ! k ! l \<noteq> solution1 ! i ! j)))"
    by blast
  from r h have e: "solution1 = example_sweep1" by simp
  have lt: "(1::nat) < 9" "(3::nat) < 9" by simp_all
  from a[rule_format, OF lt z] have
    "(1, 3) \<in> set (spec_box_cells 1) \<and>
     (\<exists>mr mc. checkrow 1 example_puzzle = Inr mr \<and> checkcol 3 example_puzzle = Inr mc \<and>
        set mr \<inter> set mc \<inter>
          set (missing_in (map (\<lambda>(k, l). example_puzzle ! k ! l) (spec_box_cells 1))) = {7})"
    unfolding b e v by auto
  with s n c1 h z v o m show ?thesis by blast
qed

text \<open>
  Claim C7. Within a sweep, the missing numbers are computed once, from the grid the sweep
  was given, and the scan of the cells only reads them and that grid. The values staged for
  a run of cells do not depend on what was staged before: started from any other flag and
  list of staged values, the scan appends the same values. The output grid is the list of
  staged values cut into rows.
\<close>

theorem sud_stages_from_snapshot:
  assumes "sud puzzle = Inr (finished, solution1)"
  shows "\<exists>missingrow missingcol missingbox solution.
           missing_loop puzzle [0..<9] ([], [], []) = Inr (missingrow, missingcol, missingbox) \<and>
           cells puzzle missingrow missingcol missingbox cell_order (True, []) = Inr (finished, solution) \<and>
           solution1 = map (\<lambda>i. slice (9 * i) (9 * i + 9) solution) [0..<9] \<and>
           (\<forall>ijs st st'. cells puzzle missingrow missingcol missingbox ijs st = Inr st' \<longrightarrow>
              (\<exists>vs. snd st' = snd st @ vs \<and> length vs = length ijs \<and>
                 (\<forall>st2. \<exists>f2. cells puzzle missingrow missingcol missingbox ijs st2 = Inr (f2, snd st2 @ vs))))"
proof -
  from assms obtain missingrow missingcol missingbox
    where m: "missing_loop puzzle [0..<9] ([], [], []) = Inr (missingrow, missingcol, missingbox)"
    unfolding sud_def by (auto split: sum.splits)
  with assms obtain solution
    where c: "cells puzzle missingrow missingcol missingbox cell_order (True, []) = Inr (finished, solution)"
      and s: "solution1 = map (\<lambda>i. slice (9 * i) (9 * i + 9) solution) [0..<9]"
    unfolding sud_def by (auto split: sum.splits)
  from m c s cells_stage show ?thesis by blast
qed

theorem sud_stages_from_snapshot_witness:
  "sud example_puzzle = Inr (False, example_sweep1) \<and>
   (\<exists>missingrow missingcol missingbox solution.
      missing_loop example_puzzle [0..<9] ([], [], []) = Inr (missingrow, missingcol, missingbox) \<and>
      cells example_puzzle missingrow missingcol missingbox cell_order (True, []) = Inr (False, solution) \<and>
      example_sweep1 = map (\<lambda>i. slice (9 * i) (9 * i + 9) solution) [0..<9] \<and>
      (\<exists>f2. cells example_puzzle missingrow missingcol missingbox cell_order (True, [5, 5]) =
                Inr (f2, [5, 5] @ solution)))"
proof -
  have h: "sud example_puzzle = Inr (False, example_sweep1)" by code_simp
  from sud_stages_from_snapshot[OF h] obtain missingrow missingcol missingbox solution
    where m: "missing_loop example_puzzle [0..<9] ([], [], []) = Inr (missingrow, missingcol, missingbox)"
      and c: "cells example_puzzle missingrow missingcol missingbox cell_order (True, []) = Inr (False, solution)"
      and s: "example_sweep1 = map (\<lambda>i. slice (9 * i) (9 * i + 9) solution) [0..<9]"
      and n: "\<forall>ijs st st'. cells example_puzzle missingrow missingcol missingbox ijs st = Inr st' \<longrightarrow>
              (\<exists>vs. snd st' = snd st @ vs \<and> length vs = length ijs \<and>
                 (\<forall>st2. \<exists>f2. cells example_puzzle missingrow missingcol missingbox ijs st2 = Inr (f2, snd st2 @ vs)))"
    by blast
  from n c obtain vs where vs: "snd (False, solution) = snd (True, []::int list) @ vs"
    "\<forall>st2. \<exists>f2. cells example_puzzle missingrow missingcol missingbox cell_order st2 = Inr (f2, snd st2 @ vs)"
    by blast
  from vs(1) have "vs = solution" by simp
  with vs(2) have "\<exists>f2. cells example_puzzle missingrow missingcol missingbox cell_order (True, [5, 5]) =
                Inr (f2, snd (True, [5, 5::int]) @ solution)" by blast
  then have "\<exists>f2. cells example_puzzle missingrow missingcol missingbox cell_order (True, [5, 5]) =
                Inr (f2, [5, 5] @ solution)" by simp
  with h m c s show ?thesis by blast
qed

text \<open>
  Claim C8. Every cell that is nonzero in the input of a sweep has the same value in its
  output, and the output has no more empty cells than the input.
\<close>

theorem sud_keeps_filled_cells:
  assumes "sud puzzle = Inr (finished, solution1)"
  shows "(\<forall>i<9. \<forall>j<9. puzzle ! i ! j \<noteq> 0 \<longrightarrow> solution1 ! i ! j = puzzle ! i ! j) \<and>
         empty_count solution1 \<le> empty_count puzzle"
proof
  show "\<forall>i<9. \<forall>j<9. puzzle ! i ! j \<noteq> 0 \<longrightarrow> solution1 ! i ! j = puzzle ! i ! j"
    using sud_nth[OF assms] by (simp add: fill_filled)
next
  from assms have sh: "shape_ok puzzle" by (rule sud_Inr_shape)
  from sud_eq[OF sh] assms
  have "solution1 = map (\<lambda>i. map (\<lambda>j. fill puzzle i j) [0..<9]) [0..<9]" by simp
  then have "concat solution1 = map (\<lambda>(i, j). fill puzzle i j) cell_order"
    by (simp only: concat_rows_cell_order)
  moreover have "concat (map (take 9) (take 9 puzzle)) = map (\<lambda>(i, j). puzzle ! i ! j) cell_order"
    by (simp only: region_rows[OF sh] concat_rows_cell_order)
  moreover have "length (filter (\<lambda>v. v = 0) (map (\<lambda>(i, j). fill puzzle i j) cell_order))
      \<le> length (filter (\<lambda>v. v = 0) (map (\<lambda>(i, j). puzzle ! i ! j) cell_order))"
    by (rule count_map_le) (auto dest: fill_zero)
  ultimately have "empty_count solution1 \<le> empty_count (map (take 9) (take 9 puzzle))"
    unfolding empty_count_def by simp
  also have "\<dots> \<le> empty_count (take 9 puzzle)"
    unfolding empty_count_def by (rule count_concat_map_take_le)
  also have "\<dots> \<le> empty_count puzzle"
    unfolding empty_count_def by (rule count_concat_take_le)
  finally show "empty_count solution1 \<le> empty_count puzzle" .
qed

theorem sud_keeps_filled_cells_witness:
  "sud example_puzzle = Inr (False, example_sweep1) \<and> example_puzzle ! 0 ! 1 = 2 \<and>
   example_sweep1 ! 0 ! 1 = 2 \<and> empty_count example_sweep1 \<le> empty_count example_puzzle"
proof -
  have h: "sud example_puzzle = Inr (False, example_sweep1)" by code_simp
  have z: "example_puzzle ! 0 ! 1 = 2" by (simp add: example_puzzle_def)
  from sud_keeps_filled_cells[OF h] h z show ?thesis by simp
qed

text \<open>
  Claim C9, as amended. If a sweep of a grid of nine rows of nine values assigns no cell, its
  output is its input, and every further sweep returns the same grid again. With a row of
  more than nine values this fails: the sweep counts the values beyond the ninth as present
  in the row and cuts them from its output, so a sweep that assigns nothing can be followed
  by one that assigns a cell.
\<close>

theorem sud_fixed_point:
  assumes "nine_by_nine puzzle" and "sud puzzle = Inr (finished, solution1)"
    and "\<forall>i<9. \<forall>j<9. puzzle ! i ! j = 0 \<longrightarrow> solution1 ! i ! j = 0"
  shows "solution1 = puzzle \<and> (\<forall>n. resweep n puzzle = Inr (finished, puzzle))"
proof -
  have "fill puzzle i j = puzzle ! i ! j" if "i < 9" "j < 9" for i j
  proof (cases "puzzle ! i ! j = 0")
    case True
    with assms(3) that have "solution1 ! i ! j = 0" by simp
    with sud_nth[OF assms(2) that] True show ?thesis by simp
  next
    case False
    then show ?thesis by (rule fill_filled)
  qed
  from sud_same_cells[OF assms(1) this] assms(2) have e: "solution1 = puzzle" by simp
  have "resweep n puzzle = Inr (finished, puzzle)" for n
    by (induction n) (use assms(2) e in simp_all)
  with e show ?thesis by simp
qed

theorem sud_fixed_point_witness:
  "nine_by_nine one_clue_grid \<and> sud one_clue_grid = Inr (False, one_clue_grid) \<and>
   resweep 3 one_clue_grid = Inr (False, one_clue_grid)"
proof -
  have n: "nine_by_nine one_clue_grid" by code_simp
  have h: "sud one_clue_grid = Inr (False, one_clue_grid)" by code_simp
  have "\<forall>i<9. \<forall>j<9. one_clue_grid ! i ! j = 0 \<longrightarrow> one_clue_grid ! i ! j = 0" by simp
  from sud_fixed_point[OF n h this] n h show ?thesis by simp
qed

theorem sud_fixed_point_counterexample:
  "read_rows 9 long_row_input [] = Inr long_row_grid \<and>
   resweep 0 long_row_grid = Inr (False, long_row_sweep1) \<and>
   list_all (\<lambda>(i, j). long_row_sweep1 ! i ! j = long_row_grid ! i ! j) cell_order \<and>
   long_row_sweep1 \<noteq> long_row_grid \<and>
   resweep 1 long_row_grid = Inr (False, long_row_sweep2) \<and>
   long_row_sweep1 ! 8 ! 8 = 0 \<and> long_row_sweep2 ! 8 ! 8 = 9"
  by code_simp



end
